theory Spec2Isabelle
  imports Main
begin

section \<open>The spinning button (spinning\_button.py)\<close>

text \<open>
  The widget state of \<open>SpinningButton\<close>. Every attribute that the methods read or
  write is a field. The two \<open>QTimer\<close> objects are kept as the number of milliseconds left
  until they fire (\<open>None\<close> when \<open>isActive()\<close> is false). The icon shown by the base
  class (\<open>setIcon\<close>) and its enabled flag (\<open>isEnabled\<close>, \<open>setEnabled\<close>,
  \<open>setDisabled\<close>) are fields too. The emissions of \<open>signal_started_spinning\<close> and
  \<open>signal_stopped_spinning\<close> are appended to \<open>emitted\<close>, the calls of
  \<open>self.update()\<close> are counted in \<open>updates\<close>.
\<close>

record qsize =
  width :: int
  height :: int

text \<open>
  An icon handle is either an icon given by the caller, or a frame that
  \<open>_spinner_icon\<close> rendered: the render is determined by the angle and by
  \<open>iconSize()\<close>.
\<close>

datatype icon = GivenIcon nat | SpinnerIcon int qsize

datatype notification = StartedSpinning | StoppedSpinning

type_synonym sig = nat
type_synonym handler = nat

record spinning_button =
  disable_while_spinning :: bool
  rotation_angle :: int
  icon_size :: qsize
  padding :: int
  timeout :: int
  enabled_icon :: icon
  icon :: icon
  spinning :: bool
  stop_signal :: "sig option"
  timer :: "nat option"
  timeout_timer :: "nat option"
  enabled :: bool
  emitted :: "notification list"
  updates :: nat

text \<open>
  The constructor up to line 116 (a valid spinner graphic, no stop signal given):
  angle 0, icon size 18 x 18, padding 3, the enabled icon shown, not spinning, both timers
  created but not started. A new widget is enabled.
\<close>

definition new_button :: "icon \<Rightarrow> int \<Rightarrow> bool \<Rightarrow> spinning_button" where
  "new_button ei t dws =
     \<lparr> disable_while_spinning = dws,
       rotation_angle = 0,
       icon_size = \<lparr> width = 18, height = 18 \<rparr>,
       padding = 3,
       timeout = t,
       enabled_icon = ei,
       icon = ei,
       spinning = False,
       stop_signal = None,
       timer = None,
       timeout_timer = None,
       enabled = True,
       emitted = [],
       updates = 0 \<rparr>"

text \<open>\<open>_spinner_icon(angle)\<close>: the frame at that angle, at the current icon size.\<close>

definition spinner_icon :: "spinning_button \<Rightarrow> int \<Rightarrow> icon" where
  "spinner_icon s angle = SpinnerIcon angle (icon_size s)"

text \<open>
  \<open>self.timer.start()\<close> uses the interval of 100 ms set in the constructor;
  \<open>self.timeout_timer.start(msec)\<close> takes the duration.
\<close>

definition timer_start :: "spinning_button \<Rightarrow> spinning_button" where
  "timer_start s = s\<lparr>timer := Some 100\<rparr>"

definition timeout_timer_start :: "int \<Rightarrow> spinning_button \<Rightarrow> spinning_button" where
  "timeout_timer_start msec s = s\<lparr>timeout_timer := Some (nat msec)\<rparr>"

definition start_spin :: "spinning_button \<Rightarrow> spinning_button" where
  "start_spin s =
     (if spinning s then
        (let s1 = (if timer s = None then timer_start s else s);
             s2 = (if timeout s1 > 0 \<and> timeout_timer s1 = None
                   then timeout_timer_start (timeout s1 * 1000) s1 else s1)
         in s2)
      else
        (let s1 = s\<lparr>spinning := True, rotation_angle := 0\<rparr>;
             s2 = s1\<lparr>icon := spinner_icon s1 0\<rparr>;
             s3 = (if disable_while_spinning s2 \<and> enabled s2
                   then s2\<lparr>enabled := False\<rparr> else s2);
             s4 = (if timer s3 = None then timer_start s3 else s3);
             s5 = (if timeout s4 > 0
                   then timeout_timer_start (timeout s4 * 1000) s4 else s4);
             s6 = s5\<lparr>emitted := emitted s5 @ [StartedSpinning]\<rparr>
         in s6\<lparr>updates := updates s6 + 1\<rparr>))"

definition enable_button :: "spinning_button \<Rightarrow> spinning_button" where
  "enable_button s =
     (let s1 = (if timer s \<noteq> None then s\<lparr>timer := None\<rparr> else s);
          s2 = (if timeout_timer s1 \<noteq> None then s1\<lparr>timeout_timer := None\<rparr> else s1);
          was_spinning = spinning s2;
          s3 = s2\<lparr>spinning := False\<rparr>;
          s4 = s3\<lparr>icon := enabled_icon s3\<rparr>;
          s5 = (if disable_while_spinning s4 \<and> \<not> enabled s4
                then s4\<lparr>enabled := True\<rparr> else s4)
      in if was_spinning
         then s5\<lparr>emitted := emitted s5 @ [StoppedSpinning], updates := updates s5 + 1\<rparr>
         else s5)"

definition on_clicked :: "spinning_button \<Rightarrow> spinning_button" where
  "on_clicked s = (if \<not> enabled s then s else start_spin s)"

definition rotate_svg :: "spinning_button \<Rightarrow> spinning_button" where
  "rotate_svg s =
     (if \<not> spinning s then
        (if timer s \<noteq> None then s\<lparr>timer := None\<rparr> else s)
      else
        (let s1 = s\<lparr>rotation_angle := (rotation_angle s + 10) mod 360\<rparr>
         in s1\<lparr>icon := spinner_icon s1 (rotation_angle s1)\<rparr>))"

text \<open>\<open>setIconSize\<close> with a \<open>QSize\<close> argument (any other argument raises \<open>TypeError\<close>).\<close>

definition setIconSize :: "qsize \<Rightarrow> spinning_button \<Rightarrow> spinning_button" where
  "setIconSize sz s = s\<lparr>icon_size := sz, updates := updates s + 1\<rparr>"

definition iconSize :: "spinning_button \<Rightarrow> qsize" where
  "iconSize s = icon_size s"


text \<open>\<open>setEnabled\<close> of the base class, as a caller of the widget may use it.\<close>

definition setEnabled :: "bool \<Rightarrow> spinning_button \<Rightarrow> spinning_button" where
  "setEnabled b s = s\<lparr>enabled := b\<rparr>"


subsection \<open>The event loop: simulated time and sequences of calls\<close>

text \<open>
  Modelled from the spec: the timers of the toolkit (\<open>QTimer\<close>), whose code is not in
  the repository (a timer schedules a later call of its slot on the event loop; the
  animation timer repeats with its period, the timeout timer is single-shot).
  One millisecond of the event loop with no other event pending. An active timer counts
  down; when its time is up its \<open>timeout\<close> signal runs the slot connected in the
  constructor: \<open>rotate_svg\<close> for the repeating animation timer (which is re-armed with
  its interval of 100 ms before the slot runs), \<open>enable_button\<close> for the single-shot
  timeout timer (which is inactive when the slot runs). When both are due in the same
  millisecond the animation timer, started first, is served first.
\<close>

definition elapse_timer :: "spinning_button \<Rightarrow> spinning_button" where
  "elapse_timer s =
     (case timer s of
        None \<Rightarrow> s
      | Some n \<Rightarrow> if n \<le> 1 then rotate_svg (s\<lparr>timer := Some 100\<rparr>)
                  else s\<lparr>timer := Some (n - 1)\<rparr>)"

definition elapse_timeout_timer :: "spinning_button \<Rightarrow> spinning_button" where
  "elapse_timeout_timer s =
     (case timeout_timer s of
        None \<Rightarrow> s
      | Some n \<Rightarrow> if n \<le> 1 then enable_button (s\<lparr>timeout_timer := None\<rparr>)
                  else s\<lparr>timeout_timer := Some (n - 1)\<rparr>)"

definition elapse_ms :: "spinning_button \<Rightarrow> spinning_button" where
  "elapse_ms s = elapse_timeout_timer (elapse_timer s)"


text \<open>What can happen to the widget between two returns to the event loop.\<close>

datatype call =
    StartSpin | EnableButton | RotateSvg | OnClicked | ElapseMs
  | SetEnabled bool | SetIconSize qsize

fun step :: "call \<Rightarrow> spinning_button \<Rightarrow> spinning_button" where
  "step StartSpin s = start_spin s"
| "step EnableButton s = enable_button s"
| "step RotateSvg s = rotate_svg s"
| "step OnClicked s = on_clicked s"
| "step ElapseMs s = elapse_ms s"
| "step (SetEnabled b) s = setEnabled b s"
| "step (SetIconSize sz) s = setIconSize sz s"

definition run :: "call list \<Rightarrow> spinning_button \<Rightarrow> spinning_button" where
  "run cs s = fold step cs s"


definition angle_ok :: "spinning_button \<Rightarrow> bool" where
  "angle_ok s = (0 \<le> rotation_angle s \<and> rotation_angle s < 360 \<and> rotation_angle s mod 10 = 0)"

section \<open>Signals of the toolkit (signal\_tracker.py, \<open>SignalProtocol\<close>)\<close>

text \<open>
  Modelled from the spec: the signal objects of the toolkit, whose code is not in the
  repository (\<open>connect(handler)\<close>, \<open>disconnect(handler|none)\<close>; \<open>disconnect()\<close>
  with no argument removes one connection per call and raises once none remain).
  A signal is known by its identity, and so is a handler. The toolkit keeps the live
  connections. \<open>connect\<close> adds one. \<open>disconnect(handler)\<close> removes one connection of
  that handler and raises \<open>TypeError\<close> when there is none; \<open>disconnect()\<close> without an
  argument removes one connection of the signal and raises \<open>TypeError\<close> when none is
  left. A signal may be faulty (the wrapped object was deleted, say): then every call on it
  raises the exception recorded in \<open>faults\<close> and changes nothing. Every call is logged in
  \<open>calls\<close>; \<open>debug_log\<close> holds the messages of \<open>logger.debug\<close>.
  All exceptions modelled are subclasses of \<open>Exception\<close>.
\<close>

datatype exn = TypeError | RuntimeError | ValueError

datatype toolkit_call = Connect sig handler | Disconnect sig "handler option"

record world =
  conns :: "(sig \<times> handler) list"
  faults :: "sig \<Rightarrow> exn option"
  calls :: "toolkit_call list"
  debug_log :: "(sig \<times> handler option) list"

definition sig_connect :: "sig \<Rightarrow> handler \<Rightarrow> world \<Rightarrow> exn option \<times> world" where
  "sig_connect sg h w =
     (let w1 = w\<lparr>calls := calls w @ [Connect sg h]\<rparr>
      in case faults w1 sg of
           Some e \<Rightarrow> (Some e, w1)
         | None \<Rightarrow> (None, w1\<lparr>conns := conns w1 @ [(sg, h)]\<rparr>))"

definition sig_disconnect :: "sig \<Rightarrow> handler option \<Rightarrow> world \<Rightarrow> exn option \<times> world" where
  "sig_disconnect sg ho w =
     (let w1 = w\<lparr>calls := calls w @ [Disconnect sg ho]\<rparr>
      in case faults w1 sg of
           Some e \<Rightarrow> (Some e, w1)
         | None \<Rightarrow>
             (case ho of
                Some h \<Rightarrow>
                  if (sg, h) \<in> set (conns w1)
                  then (None, w1\<lparr>conns := remove1 (sg, h) (conns w1)\<rparr>)
                  else (Some TypeError, w1)
              | None \<Rightarrow>
                  (case find (\<lambda>c. fst c = sg) (conns w1) of
                     None \<Rightarrow> (Some TypeError, w1)
                   | Some c \<Rightarrow> (None, w1\<lparr>conns := remove1 c (conns w1)\<rparr>))))"

text \<open>The number of live connections of a signal.\<close>

definition live :: "sig \<Rightarrow> world \<Rightarrow> nat" where
  "live sg w = length (filter (\<lambda>c. fst c = sg) (conns w))"

text \<open>The world in which nothing is connected and no signal is faulty.\<close>

definition quiet_world :: world where
  "quiet_world = \<lparr> conns = [], faults = (\<lambda>sg. None), calls = [], debug_log = [] \<rparr>"

subsection \<open>\<open>SignalTools\<close>\<close>

text \<open>
  \<open>_safe_disconnect\<close>: \<open>while True\<close> around \<open>signal.disconnect()\<close>, left by
  \<open>break\<close> on \<open>TypeError\<close> only; any other exception leaves the function.
\<close>

function safe_disconnect :: "sig \<Rightarrow> world \<Rightarrow> exn option \<times> world" where
  "safe_disconnect sg w =
     (case sig_disconnect sg None w of
        (None, w1) \<Rightarrow> safe_disconnect sg w1
      | (Some e, w1) \<Rightarrow> if e = TypeError then (None, w1) else (Some e, w1))"
  by pat_completeness auto
termination
proof (relation "measure (\<lambda>(sg, w). live sg w)")
  show "wf (measure (\<lambda>(sg, w). live sg w))" by simp
next
  fix sg :: sig and w x :: world and e :: "exn option"
  assume "(e, x) = sig_disconnect sg None w" and "e = None"
  then have r: "sig_disconnect sg None w = (None, x)" by simp
  then obtain c where c: "find (\<lambda>c. fst c = sg) (conns w) = Some c"
    and x: "conns x = remove1 c (conns w)"
    by (auto simp: sig_disconnect_def Let_def split: option.splits)
  from c have "c \<in> set (conns w)" and "fst c = sg"
    by (auto simp: find_Some_iff)
  then have mem: "c \<in> set (filter (\<lambda>c. fst c = sg) (conns w))" by simp
  then have "0 < length (filter (\<lambda>c. fst c = sg) (conns w))"
    by (rule length_pos_if_in_set)
  with mem have "length (remove1 c (filter (\<lambda>c. fst c = sg) (conns w)))
               < length (filter (\<lambda>c. fst c = sg) (conns w))"
    by (simp add: length_remove1)
  moreover have "filter (\<lambda>c. fst c = sg) (remove1 c (conns w))
                   = remove1 c (filter (\<lambda>c. fst c = sg) (conns w))"
    by (rule filter_remove1)
  ultimately show "((sg, x), (sg, w)) \<in> measure (\<lambda>(sg, w). live sg w)"
    using x by (simp add: live_def)
qed

text \<open>
  The owner object as \<open>dir\<close> and \<open>getattr\<close> show it: its attribute names in the
  order of \<open>dir\<close>, each with what \<open>getattr\<close> does and whether the value passes
  \<open>isinstance(sig, SignalProtocol)\<close>.
\<close>

datatype attr = GetattrRaises | NotSignal | SignalAttr sig

fun disconnect_all_signals_from :: "(string \<times> attr) list \<Rightarrow> world \<Rightarrow> exn option \<times> world" where
  "disconnect_all_signals_from [] w = (None, w)"
| "disconnect_all_signals_from ((name, a) # rest) w =
     (if name = ''destroyed'' then disconnect_all_signals_from rest w
      else case a of
             GetattrRaises \<Rightarrow> disconnect_all_signals_from rest w
           | NotSignal \<Rightarrow> disconnect_all_signals_from rest w
           | SignalAttr sg \<Rightarrow>
               (case safe_disconnect sg w of
                  (Some e, w1) \<Rightarrow> (Some e, w1)
                | (None, w1) \<Rightarrow> disconnect_all_signals_from rest w1))"

definition connect_signal :: "sig \<Rightarrow> handler \<Rightarrow> world \<Rightarrow> exn option \<times> world \<times> (sig \<times> handler) option" where
  "connect_signal sg h w =
     (case sig_connect sg h w of
        (Some e, w1) \<Rightarrow> (Some e, w1, None)
      | (None, w1) \<Rightarrow> (None, w1, Some (sg, h)))"

definition connect_signal_and_append ::
  "(sig \<times> handler) list \<Rightarrow> sig \<Rightarrow> handler \<Rightarrow> world \<Rightarrow> exn option \<times> world \<times> (sig \<times> handler) list" where
  "connect_signal_and_append connected sg h w =
     (case sig_connect sg h w of
        (Some e, w1) \<Rightarrow> (Some e, w1, connected)
      | (None, w1) \<Rightarrow> (None, w1, connected @ [(sg, h)]))"



subsection \<open>\<open>SignalTracker\<close>\<close>

record signal_tracker =
  connected_signals :: "(sig \<times> handler) list"

definition SignalTracker_init :: signal_tracker where
  "SignalTracker_init = \<lparr> connected_signals = [] \<rparr>"

definition SignalTracker_connect ::
  "sig \<Rightarrow> handler \<Rightarrow> world \<times> signal_tracker \<Rightarrow> exn option \<times> world \<times> signal_tracker" where
  "SignalTracker_connect sg h = (\<lambda>(w, tr).
     case sig_connect sg h w of
       (Some e, w1) \<Rightarrow> (Some e, w1, tr)
     | (None, w1) \<Rightarrow> (None, w1, tr\<lparr>connected_signals := connected_signals tr @ [(sg, h)]\<rparr>))"


subsection \<open>The stop signal of the button\<close>

text \<open>\<open>SpinningButton._disconnect_signal\<close>: \<open>try\<close> the disconnect, \<open>except Exception: pass\<close>.\<close>

definition SpinningButton_disconnect_signal :: "sig \<Rightarrow> handler \<Rightarrow> world \<Rightarrow> exn option \<times> world" where
  "SpinningButton_disconnect_signal sg slot w =
     (case sig_disconnect sg (Some slot) w of
        (Some e, w1) \<Rightarrow> (None, w1)
      | (None, w1) \<Rightarrow> (None, w1))"

text \<open>
  \<open>set_enable_signal\<close>. The handler \<open>eb\<close> is the bound method \<open>self.enable_button\<close>
  of this button. A signal object of the toolkit defines neither \<open>__bool__\<close> nor
  \<open>__len__\<close>, so the test \<open>if self._stop_signal:\<close> is the test that a signal is
  recorded.
\<close>

definition set_enable_signal ::
  "handler \<Rightarrow> sig option \<Rightarrow> world \<times> spinning_button \<Rightarrow> exn option \<times> world \<times> spinning_button" where
  "set_enable_signal eb signal_stop_spinning = (\<lambda>(w, s).
     case (case stop_signal s of
             Some old \<Rightarrow> SpinningButton_disconnect_signal old eb w
           | None \<Rightarrow> (None, w)) of
       (Some e, w1) \<Rightarrow> (Some e, w1, s)
     | (None, w1) \<Rightarrow>
         (let s1 = s\<lparr>stop_signal := None\<rparr>
          in case signal_stop_spinning of
               None \<Rightarrow> (None, w1, s1)
             | Some new \<Rightarrow>
                 (let s2 = s1\<lparr>stop_signal := Some new\<rparr>
                  in case SpinningButton_disconnect_signal new eb w1 of
                       (Some e, w2) \<Rightarrow> (Some e, w2, s2)
                     | (None, w2) \<Rightarrow>
                         (case sig_connect new eb w2 of
                            (Some e, w3) \<Rightarrow> (None, w3, s2\<lparr>stop_signal := None\<rparr>)
                          | (None, w3) \<Rightarrow> (None, w3, s2)))))"

text \<open>
  The whole constructor: \<open>ValueError\<close> for an invalid spinner graphic, then the widget of
  \<open>new_button\<close>, then \<open>set_enable_signal\<close> if a stop signal is given.
\<close>

definition SpinningButton_init ::
  "handler \<Rightarrow> sig option \<Rightarrow> icon \<Rightarrow> bool \<Rightarrow> int \<Rightarrow> bool \<Rightarrow> world
     \<Rightarrow> exn option \<times> world \<times> spinning_button option" where
  "SpinningButton_init eb signal_stop_spinning ei svg_valid t dws w =
     (if \<not> svg_valid then (Some ValueError, w, None)
      else case signal_stop_spinning of
             None \<Rightarrow> (None, w, Some (new_button ei t dws))
           | Some sg \<Rightarrow>
               (case set_enable_signal eb (Some sg) (w, new_button ei t dws) of
                  (e, w1, s1) \<Rightarrow> (e, w1, Some s1)))"

text \<open>
  Emitting a signal runs its connected handlers in the order of connection; those that
  are \<open>enable_button\<close> of this button act on it.
\<close>

definition emit :: "sig \<Rightarrow> handler \<Rightarrow> world \<Rightarrow> spinning_button \<Rightarrow> spinning_button" where
  "emit sg eb w s = fold (\<lambda>c s. if c = (sg, eb) then enable_button s else s) (conns w) s"

subsection \<open>Example states\<close>

text \<open>
  A button whose stop signal is signal 1, in a world where signal 1 is connected to the
  button's \<open>enable_button\<close> (handler 0); and the same world with signal 2 faulty.
\<close>

definition bound_button :: spinning_button where
  "bound_button = (new_button (GivenIcon 0) 60 True)\<lparr>stop_signal := Some 1\<rparr>"

definition bound_world :: world where
  "bound_world = quiet_world\<lparr>conns := [(1, 0)]\<rparr>"

definition faulty_world :: world where
  "faulty_world = bound_world\<lparr>faults := (\<lambda>sg. if sg = 2 then Some RuntimeError else None)\<rparr>"

section \<open>Properties of the spinning button\<close>

subsection \<open>The animation tick\<close>

lemma rotate_svg_funpow:
  "spinning s \<Longrightarrow>
     spinning ((rotate_svg ^^ Suc n) s) \<and>
     rotation_angle ((rotate_svg ^^ Suc n) s) = (rotation_angle s + 10 * (int n + 1)) mod 360"
proof (induction n)
  case 0
  then show ?case by (simp add: rotate_svg_def Let_def)
next
  case (Suc n)
  then have "spinning ((rotate_svg ^^ Suc n) s)"
    and a: "rotation_angle ((rotate_svg ^^ Suc n) s) = (rotation_angle s + 10 * (int n + 1)) mod 360"
    by simp_all
  then have "spinning (rotate_svg ((rotate_svg ^^ Suc n) s))"
    and "rotation_angle (rotate_svg ((rotate_svg ^^ Suc n) s))
           = ((rotation_angle s + 10 * (int n + 1)) mod 360 + 10) mod 360"
    by (simp_all add: rotate_svg_def Let_def)
  moreover have "((rotation_angle s + 10 * (int n + 1)) mod 360 + 10) mod 360
                   = (rotation_angle s + 10 * (int (Suc n) + 1)) mod 360"
    by (simp add: mod_simps algebra_simps)
  ultimately show ?case by simp
qed

text \<open>
  Claim C7. \<open>rotate_svg\<close>, the slot of the animation timer: when the button is not
  spinning it changes nothing except that it stops the animation timer if that is active;
  when the button is spinning it sets the angle to the old angle plus 10 modulo 360 and
  shows the frame rendered at the new angle, and nothing else changes. Hence 36 ticks of
  a spinning button whose angle is 0 bring the angle back to 0.
\<close>

theorem rotate_svg_tick:
  "rotate_svg s =
     (if spinning s
      then s\<lparr>rotation_angle := (rotation_angle s + 10) mod 360,
             icon := SpinnerIcon ((rotation_angle s + 10) mod 360) (icon_size s)\<rparr>
      else s\<lparr>timer := None\<rparr>)
   \<and> (spinning s \<and> rotation_angle s = 0 \<longrightarrow>
        spinning ((rotate_svg ^^ 36) s) \<and> rotation_angle ((rotate_svg ^^ 36) s) = 0)"
proof -
  have "rotate_svg s =
     (if spinning s
      then s\<lparr>rotation_angle := (rotation_angle s + 10) mod 360,
             icon := SpinnerIcon ((rotation_angle s + 10) mod 360) (icon_size s)\<rparr>
      else s\<lparr>timer := None\<rparr>)"
    by (simp add: rotate_svg_def Let_def spinner_icon_def)
  moreover have "spinning s \<and> rotation_angle s = 0 \<longrightarrow>
        spinning ((rotate_svg ^^ 36) s) \<and> rotation_angle ((rotate_svg ^^ 36) s) = 0"
  proof
    assume h: "spinning s \<and> rotation_angle s = 0"
    have "Suc 35 = 36" by simp
    with rotate_svg_funpow [of s 35] h
    have "spinning ((rotate_svg ^^ 36) s)"
      and "rotation_angle ((rotate_svg ^^ 36) s) = (0 + 10 * (int 35 + 1)) mod 360"
      by (simp_all only:)
    then show "spinning ((rotate_svg ^^ 36) s) \<and> rotation_angle ((rotate_svg ^^ 36) s) = 0"
      by simp
  qed
  ultimately show ?thesis by blast
qed

theorem rotate_svg_tick_witness:
  "spinning (start_spin (new_button (GivenIcon 0) 60 True))
   \<and> rotation_angle (start_spin (new_button (GivenIcon 0) 60 True)) = 0
   \<and> rotation_angle ((rotate_svg ^^ 36) (start_spin (new_button (GivenIcon 0) 60 True))) = 0"
proof -
  have h: "spinning (start_spin (new_button (GivenIcon 0) 60 True))
           \<and> rotation_angle (start_spin (new_button (GivenIcon 0) 60 True)) = 0"
    by (simp add: start_spin_def new_button_def Let_def timer_start_def timeout_timer_start_def)
  with rotate_svg_tick [of "start_spin (new_button (GivenIcon 0) 60 True)"]
  show ?thesis by blast
qed

subsection \<open>The size hint\<close>


subsection \<open>\<open>start_spin\<close> and \<open>enable_button\<close> as equations on the state\<close>

lemmas button_defs = timer_start_def timeout_timer_start_def spinner_icon_def Let_def

lemma start_spin_spinning:
  "spinning s \<Longrightarrow>
     start_spin s =
       s\<lparr>timer := (if timer s = None then Some 100 else timer s),
         timeout_timer := (if 0 < timeout s \<and> timeout_timer s = None
                           then Some (nat (timeout s * 1000)) else timeout_timer s)\<rparr>"
  by (rule spinning_button.equality) (auto simp add: start_spin_def button_defs)

lemma start_spin_idle:
  "\<not> spinning s \<Longrightarrow>
     start_spin s =
       s\<lparr>spinning := True, rotation_angle := 0, icon := SpinnerIcon 0 (icon_size s),
         enabled := (enabled s \<and> \<not> disable_while_spinning s),
         timer := (if timer s = None then Some 100 else timer s),
         timeout_timer := (if 0 < timeout s then Some (nat (timeout s * 1000)) else timeout_timer s),
         emitted := emitted s @ [StartedSpinning],
         updates := updates s + 1\<rparr>"
  by (rule spinning_button.equality) (auto simp add: start_spin_def button_defs)





lemma enable_button_eq:
  "enable_button s =
     s\<lparr>timer := None, timeout_timer := None, spinning := False, icon := enabled_icon s,
       enabled := (enabled s \<or> disable_while_spinning s),
       emitted := (if spinning s then emitted s @ [StoppedSpinning] else emitted s),
       updates := (if spinning s then updates s + 1 else updates s)\<rparr>"
  by (rule spinning_button.equality) (auto simp add: enable_button_def Let_def)

lemma enable_button_twice: "enable_button (enable_button s) = enable_button s"
  by (rule spinning_button.equality) (simp_all add: enable_button_eq)








subsection \<open>Idempotence of \<open>start_spin\<close>\<close>




subsection \<open>\<open>enable_button\<close>, the way back to idle\<close>




subsection \<open>The range of the rotation angle\<close>

lemma angle_ok_start_spin: "angle_ok s \<Longrightarrow> angle_ok (start_spin s)"
  by (cases "spinning s") (simp_all add: angle_ok_def start_spin_spinning start_spin_idle)

lemma angle_ok_enable_button: "angle_ok s \<Longrightarrow> angle_ok (enable_button s)"
  by (simp add: angle_ok_def enable_button_eq)

lemma angle_ok_rotate_svg: "angle_ok s \<Longrightarrow> angle_ok (rotate_svg s)"
proof -
  assume a: "angle_ok s"
  have "(rotation_angle s + 10) mod 360 mod 10 = (rotation_angle s + 10) mod 10"
    by (rule mod_mod_cancel) simp
  with a show ?thesis
    by (simp add: angle_ok_def rotate_svg_def Let_def)
qed

lemma angle_ok_elapse_ms: "angle_ok s \<Longrightarrow> angle_ok (elapse_ms s)"
proof -
  assume a: "angle_ok s"
  have t: "\<And>x n. angle_ok (x\<lparr>timer := n\<rparr>) = angle_ok x"
    and u: "\<And>x n. angle_ok (x\<lparr>timeout_timer := n\<rparr>) = angle_ok x"
    by (simp_all add: angle_ok_def)
  from a have "angle_ok (elapse_timer s)"
    by (simp add: elapse_timer_def t angle_ok_rotate_svg split: option.splits)
  then show ?thesis
    by (simp add: elapse_ms_def elapse_timeout_timer_def u angle_ok_enable_button split: option.splits)
qed

lemma angle_ok_step: "angle_ok s \<Longrightarrow> angle_ok (step c s)"
proof (cases c)
  case OnClicked
  assume "angle_ok s"
  with OnClicked show ?thesis by (simp add: on_clicked_def angle_ok_start_spin)
next
  case (SetEnabled b)
  assume "angle_ok s"
  with SetEnabled show ?thesis by (simp add: setEnabled_def angle_ok_def)
next
  case (SetIconSize sz)
  assume "angle_ok s"
  with SetIconSize show ?thesis by (simp add: setIconSize_def angle_ok_def)
qed (simp_all add: angle_ok_start_spin angle_ok_enable_button angle_ok_rotate_svg angle_ok_elapse_ms)

lemma run_Nil: "run [] s = s"
  by (simp add: run_def)

lemma run_Cons: "run (c # cs) s = run cs (step c s)"
  by (simp add: run_def)

lemma angle_ok_run: "angle_ok s \<Longrightarrow> angle_ok (run cs s)"
  by (induction cs arbitrary: s) (simp_all add: run_Nil run_Cons angle_ok_step)

lemma SpinningButton_disconnect_signal_eq:
  "SpinningButton_disconnect_signal sg h w = (None, snd (sig_disconnect sg (Some h) w))"
  by (simp add: SpinningButton_disconnect_signal_def split: prod.splits option.splits)

lemma set_enable_signal_button:
  "\<exists>x. snd (snd (set_enable_signal eb sgo (w, s))) = s\<lparr>stop_signal := x\<rparr>"
proof (cases sgo)
  case None
  then show ?thesis
    by (cases "stop_signal s")
       (auto simp add: set_enable_signal_def SpinningButton_disconnect_signal_eq)
next
  case (Some new)
  then show ?thesis
    by (cases "stop_signal s")
       (auto simp add: set_enable_signal_def SpinningButton_disconnect_signal_eq Let_def
             split: prod.splits option.splits)
qed

lemma SpinningButton_init_button:
  assumes "SpinningButton_init eb sgo ei v t dws w = (e, w1, Some s0)"
  shows "\<exists>x. s0 = (new_button ei t dws)\<lparr>stop_signal := x\<rparr>"
proof (cases sgo)
  case None
  with assms have "s0 = new_button ei t dws"
    by (simp add: SpinningButton_init_def split: if_splits)
  then have "s0 = (new_button ei t dws)\<lparr>stop_signal := stop_signal (new_button ei t dws)\<rparr>"
    by simp
  then show ?thesis ..
next
  case (Some sg)
  with assms have "s0 = snd (snd (set_enable_signal eb (Some sg) (w, new_button ei t dws)))"
    by (simp add: SpinningButton_init_def split: if_splits prod.splits)
  with set_enable_signal_button [of eb "Some sg" w "new_button ei t dws"] show ?thesis
    by simp
qed

text \<open>
  Claim C9. After construction, with or without a stop signal, the rotation angle is 0,
  and after any sequence of calls of \<open>start_spin\<close>, \<open>enable_button\<close> and
  \<open>rotate_svg\<close> (and of clicks, elapsing milliseconds, \<open>setEnabled\<close> and
  \<open>setIconSize\<close>) it is a multiple of 10 with \<open>0 \<le> rotation_angle < 360\<close>.
\<close>

theorem rotation_angle_invariant:
  "SpinningButton_init eb sgo ei v t dws w = (e, w1, Some s0) \<Longrightarrow>
     rotation_angle s0 = 0 \<and> angle_ok (run cs s0)"
proof -
  assume "SpinningButton_init eb sgo ei v t dws w = (e, w1, Some s0)"
  then obtain x where "s0 = (new_button ei t dws)\<lparr>stop_signal := x\<rparr>"
    using SpinningButton_init_button by blast
  then have z: "rotation_angle s0 = 0"
    by (simp add: new_button_def)
  then have "angle_ok s0"
    by (simp add: angle_ok_def)
  then have "angle_ok (run cs s0)"
    by (rule angle_ok_run)
  with z show ?thesis by simp
qed

text \<open>
  The theorem at a button made without a stop signal, after a start, 37 ticks written as
  calls and a stop: the angle has gone once around.
\<close>

theorem rotation_angle_invariant_witness:
  "SpinningButton_init 0 None (GivenIcon 0) True 60 True quiet_world
     = (None, quiet_world, Some (new_button (GivenIcon 0) 60 True))
   \<and> angle_ok (run (StartSpin # replicate 37 RotateSvg @ [EnableButton])
                  (new_button (GivenIcon 0) 60 True))"
proof -
  have i: "SpinningButton_init 0 None (GivenIcon 0) True 60 True quiet_world
     = (None, quiet_world, Some (new_button (GivenIcon 0) 60 True))"
    by (simp add: SpinningButton_init_def)
  from rotation_angle_invariant [OF i] i show ?thesis by blast
qed

subsection \<open>The timeout\<close>










lemma emit_fold:
  "fold (\<lambda>c s. if c = (sg, eb) then enable_button s else s) xs s
     = (if (sg, eb) \<in> set xs then enable_button s else s)"
proof (induction xs arbitrary: s)
  case Nil
  then show ?case by simp
next
  case (Cons x xs)
  show ?case
  proof (cases "x = (sg, eb)")
    case True
    then show ?thesis by (simp add: Cons.IH enable_button_twice)
  next
    case False
    then show ?thesis by (simp add: Cons.IH)
  qed
qed

lemma emit_eq:
  "emit sg eb w s = (if (sg, eb) \<in> set (conns w) then enable_button s else s)"
  by (simp add: emit_def emit_fold)



section \<open>Properties of the signal tools and the tracker\<close>

subsection \<open>The toolkit calls\<close>

lemma sig_connect_eq:
  "sig_connect sg h w =
     (faults w sg,
      if faults w sg = None
      then w\<lparr>calls := calls w @ [Connect sg h], conns := conns w @ [(sg, h)]\<rparr>
      else w\<lparr>calls := calls w @ [Connect sg h]\<rparr>)"
  by (cases "faults w sg") (simp_all add: sig_connect_def Let_def)

lemma sig_disconnect_faults: "faults (snd (sig_disconnect sg ho w)) = faults w"
  by (simp add: sig_disconnect_def Let_def split: option.splits)

lemma sig_disconnect_calls:
  "calls (snd (sig_disconnect sg ho w)) = calls w @ [Disconnect sg ho]"
  by (simp add: sig_disconnect_def Let_def split: option.splits)

lemma sig_disconnect_debug_log: "debug_log (snd (sig_disconnect sg ho w)) = debug_log w"
  by (simp add: sig_disconnect_def Let_def split: option.splits)

lemma sig_disconnect_faulty:
  "faults w sg = Some e \<Longrightarrow>
     sig_disconnect sg ho w = (Some e, w\<lparr>calls := calls w @ [Disconnect sg ho]\<rparr>)"
  by (simp add: sig_disconnect_def Let_def)






subsection \<open>Teardown of a tracker\<close>








subsection \<open>Connecting through a tracker\<close>

lemma SignalTracker_connect_eq:
  "SignalTracker_connect sg h (w, tr) =
     (faults w sg, snd (sig_connect sg h w),
      if faults w sg = None
      then tr\<lparr>connected_signals := connected_signals tr @ [(sg, h)]\<rparr> else tr)"
  by (cases "faults w sg") (simp_all add: SignalTracker_connect_def sig_connect_eq)

text \<open>
  Claim C10. \<open>SignalTracker.connect\<close> returns with exactly the exception that the
  signal's own \<open>connect\<close> raised, if any. When it raised, the tracker is as before (and
  so are the connections of the toolkit). When it did not, the one record
  \<open>(signal, handler)\<close> is appended, and the connection exists. Hence if every record
  of the tracker was a live connection before the call, this is so after it.
\<close>

theorem tracker_connect_atomic:
  "SignalTracker_connect sg h (w, tr) = (e, w1, tr1) \<Longrightarrow>
     e = fst (sig_connect sg h w)
     \<and> (e \<noteq> None \<longrightarrow> tr1 = tr \<and> conns w1 = conns w)
     \<and> (e = None \<longrightarrow>
           connected_signals tr1 = connected_signals tr @ [(sg, h)]
           \<and> conns w1 = conns w @ [(sg, h)])
     \<and> (set (connected_signals tr) \<subseteq> set (conns w) \<longrightarrow>
           set (connected_signals tr1) \<subseteq> set (conns w1))"
proof -
  assume a: "SignalTracker_connect sg h (w, tr) = (e, w1, tr1)"
  then have e: "e = faults w sg" and w1: "w1 = snd (sig_connect sg h w)"
    and tr1: "tr1 = (if faults w sg = None
                     then tr\<lparr>connected_signals := connected_signals tr @ [(sg, h)]\<rparr> else tr)"
    by (auto simp add: SignalTracker_connect_eq)
  show ?thesis
  proof (cases "faults w sg")
    case None
    with e w1 tr1 show ?thesis
      by (auto simp add: sig_connect_eq)
  next
    case (Some x)
    with e w1 tr1 show ?thesis
      by (simp add: sig_connect_eq)
  qed
qed

text \<open>
  The theorem at a new tracker, once with a faulty signal (the exception comes back and
  nothing is recorded) and once with a sound one (the record is appended).
\<close>

theorem tracker_connect_atomic_witness:
  "SignalTracker_connect 1 10 (quiet_world\<lparr>faults := (\<lambda>sg. Some RuntimeError)\<rparr>, SignalTracker_init)
     = (Some RuntimeError,
        quiet_world\<lparr>faults := (\<lambda>sg. Some RuntimeError), calls := [Connect 1 10]\<rparr>,
        SignalTracker_init)
   \<and> conns (quiet_world\<lparr>faults := (\<lambda>sg. Some RuntimeError), calls := [Connect 1 10]\<rparr>)
        = conns (quiet_world\<lparr>faults := (\<lambda>sg. Some RuntimeError)\<rparr>)
   \<and> SignalTracker_connect 1 10 (quiet_world, SignalTracker_init)
     = (None, quiet_world\<lparr>calls := [Connect 1 10], conns := [(1, 10)]\<rparr>,
        \<lparr>connected_signals = [(1, 10)]\<rparr>)
   \<and> set (connected_signals SignalTracker_init) \<subseteq> set (conns quiet_world)
   \<and> set (connected_signals \<lparr>connected_signals = [(1::nat, 10::nat)]\<rparr>)
        \<subseteq> set (conns (quiet_world\<lparr>calls := [Connect 1 10], conns := [(1, 10)]\<rparr>))"
proof -
  have r1: "SignalTracker_connect 1 10 (quiet_world\<lparr>faults := (\<lambda>sg. Some RuntimeError)\<rparr>, SignalTracker_init)
     = (Some RuntimeError,
        quiet_world\<lparr>faults := (\<lambda>sg. Some RuntimeError), calls := [Connect 1 10]\<rparr>,
        SignalTracker_init)"
    by (simp add: SignalTracker_connect_def sig_connect_eq quiet_world_def)
  have r2: "SignalTracker_connect 1 10 (quiet_world, SignalTracker_init)
     = (None, quiet_world\<lparr>calls := [Connect 1 10], conns := [(1, 10)]\<rparr>,
        \<lparr>connected_signals = [(1, 10)]\<rparr>)"
    by (simp add: SignalTracker_connect_def sig_connect_eq quiet_world_def SignalTracker_init_def)
  have s: "set (connected_signals SignalTracker_init) \<subseteq> set (conns quiet_world)"
    by (simp add: SignalTracker_init_def)
  have ne: "Some RuntimeError \<noteq> None" by simp
  from tracker_connect_atomic [OF r1] ne
  have k: "conns (quiet_world\<lparr>faults := (\<lambda>sg. Some RuntimeError), calls := [Connect 1 10]\<rparr>)
             = conns (quiet_world\<lparr>faults := (\<lambda>sg. Some RuntimeError)\<rparr>)"
    by blast
  from tracker_connect_atomic [OF r2] s
  have "set (connected_signals \<lparr>connected_signals = [(1::nat, 10::nat)]\<rparr>)
        \<subseteq> set (conns (quiet_world\<lparr>calls := [Connect 1 10], conns := [(1, 10)]\<rparr>))"
    by blast
  with r1 r2 s k show ?thesis by blast
qed

subsection \<open>Rebinding the stop signal\<close>

lemma sig_disconnect_conns:
  "conns (snd (sig_disconnect sg (Some h) w))
     = (if faults w sg = None then remove1 (sg, h) (conns w) else conns w)"
  by (cases "faults w sg") (simp_all add: sig_disconnect_def Let_def remove1_idem)

lemma set_enable_signal_None:
  "set_enable_signal eb None (w, s) =
     (None,
      (case stop_signal s of None \<Rightarrow> w | Some old \<Rightarrow> snd (sig_disconnect old (Some eb) w)),
      s\<lparr>stop_signal := None\<rparr>)"
  by (cases "stop_signal s")
     (simp_all add: set_enable_signal_def SpinningButton_disconnect_signal_eq)

lemma set_enable_signal_Some:
  "set_enable_signal eb (Some new) (w, s) =
     (None,
      snd (sig_connect new eb (snd (sig_disconnect new (Some eb)
        (case stop_signal s of None \<Rightarrow> w | Some old \<Rightarrow> snd (sig_disconnect old (Some eb) w))))),
      s\<lparr>stop_signal := (if faults w new = None then Some new else None)\<rparr>)"
proof (cases "stop_signal s")
  case None
  show ?thesis
    by (cases "faults w new")
       (simp_all add: None set_enable_signal_def SpinningButton_disconnect_signal_eq
                      sig_connect_eq sig_disconnect_faults)
next
  case (Some old)
  show ?thesis
    by (cases "faults w new")
       (simp_all add: Some set_enable_signal_def SpinningButton_disconnect_signal_eq
                      sig_connect_eq sig_disconnect_faults)
qed

lemma rebind_world_None:
  "calls (case so of None \<Rightarrow> w | Some old \<Rightarrow> snd (sig_disconnect old (Some eb) w))
     = calls w @ (case so of None \<Rightarrow> [] | Some old \<Rightarrow> [Disconnect old (Some eb)])"
  "faults (case so of None \<Rightarrow> w | Some old \<Rightarrow> snd (sig_disconnect old (Some eb) w)) = faults w"
  "conns (case so of None \<Rightarrow> w | Some old \<Rightarrow> snd (sig_disconnect old (Some eb) w))
     = (case so of None \<Rightarrow> conns w
        | Some old \<Rightarrow> if faults w old = None then remove1 (old, eb) (conns w) else conns w)"
  by (cases so; simp add: sig_disconnect_calls sig_disconnect_faults sig_disconnect_conns)+

lemma rebind_world_Some:
  "calls (snd (sig_connect new eb (snd (sig_disconnect new (Some eb) w))))
     = calls w @ [Disconnect new (Some eb), Connect new eb]"
  "faults (snd (sig_connect new eb (snd (sig_disconnect new (Some eb) w)))) = faults w"
  "conns (snd (sig_connect new eb (snd (sig_disconnect new (Some eb) w))))
     = (if faults w new = None then remove1 (new, eb) (conns w) @ [(new, eb)] else conns w)"
  by (simp_all add: sig_connect_eq sig_disconnect_calls sig_disconnect_faults sig_disconnect_conns)

text \<open>
  Claim C3. \<open>set_enable_signal\<close>, in every state of the button and of the toolkit,
  returns without exception and changes no attribute of the button but the recorded stop
  signal. Its first toolkit call, when a stop signal was recorded, is the disconnect of
  \<open>enable_button\<close> from that signal, whose failure is swallowed. Given no signal it
  makes no further call and leaves no stop signal recorded. Given a signal it disconnects
  \<open>enable_button\<close> from it (best effort) and connects it; when the connect succeeds the
  signal is recorded and the connection exists, and when the connect raises (the signal
  is faulty) no stop signal is recorded, neither the new nor the previous one.
  The connections afterwards are given in full; with no connection held twice, a former
  stop signal that is sound and differs from the new one has no effect on the button any
  more when emitted, and the new one runs \<open>enable_button\<close>.
\<close>

theorem set_enable_signal_rebind:
  "set_enable_signal eb sgo (w, s) = (e, w1, s1) \<Longrightarrow>
     e = None
     \<and> calls w1 = calls w
          @ (case stop_signal s of None \<Rightarrow> [] | Some old \<Rightarrow> [Disconnect old (Some eb)])
          @ (case sgo of None \<Rightarrow> [] | Some new \<Rightarrow> [Disconnect new (Some eb), Connect new eb])
     \<and> (sgo = None \<longrightarrow> s1 = s\<lparr>stop_signal := None\<rparr>)
     \<and> (\<forall>new. sgo = Some new \<longrightarrow>
           (faults w new = None \<longrightarrow>
              s1 = s\<lparr>stop_signal := Some new\<rparr> \<and> (new, eb) \<in> set (conns w1))
           \<and> (faults w new \<noteq> None \<longrightarrow> s1 = s\<lparr>stop_signal := None\<rparr>))
     \<and> conns w1 =
          (let c1 = (case stop_signal s of
                       None \<Rightarrow> conns w
                     | Some old \<Rightarrow> if faults w old = None then remove1 (old, eb) (conns w)
                                   else conns w)
           in case sgo of
                None \<Rightarrow> c1
              | Some new \<Rightarrow> if faults w new = None then remove1 (new, eb) c1 @ [(new, eb)] else c1)
     \<and> (\<forall>old new. stop_signal s = Some old \<and> sgo = Some new \<and> old \<noteq> new
            \<and> faults w old = None \<and> faults w new = None \<and> distinct (conns w) \<longrightarrow>
            emit old eb w1 s1 = s1 \<and> emit new eb w1 s1 = enable_button s1)"
proof (cases sgo)
  case None
  assume "set_enable_signal eb sgo (w, s) = (e, w1, s1)"
  with None have e: "e = None"
    and w1: "w1 = (case stop_signal s of None \<Rightarrow> w
                   | Some old \<Rightarrow> snd (sig_disconnect old (Some eb) w))"
    and s1: "s1 = s\<lparr>stop_signal := None\<rparr>"
    by (auto simp add: set_enable_signal_None)
  from None e s1 show ?thesis
    unfolding w1 by (simp add: rebind_world_None)
next
  case (Some new)
  let ?wa = "case stop_signal s of None \<Rightarrow> w | Some old \<Rightarrow> snd (sig_disconnect old (Some eb) w)"
  assume "set_enable_signal eb sgo (w, s) = (e, w1, s1)"
  with Some have e: "e = None"
    and w1: "w1 = snd (sig_connect new eb (snd (sig_disconnect new (Some eb) ?wa)))"
    and s1: "s1 = s\<lparr>stop_signal := (if faults w new = None then Some new else None)\<rparr>"
    by (auto simp add: set_enable_signal_Some)
  have calls: "calls w1 = calls w
          @ (case stop_signal s of None \<Rightarrow> [] | Some old \<Rightarrow> [Disconnect old (Some eb)])
          @ [Disconnect new (Some eb), Connect new eb]"
    unfolding w1 by (simp add: rebind_world_Some rebind_world_None)
  have conns: "conns w1 =
          (if faults w new = None
           then remove1 (new, eb)
                  (case stop_signal s of
                       None \<Rightarrow> conns w
                     | Some old \<Rightarrow> if faults w old = None then remove1 (old, eb) (conns w)
                                   else conns w) @ [(new, eb)]
           else (case stop_signal s of
                       None \<Rightarrow> conns w
                     | Some old \<Rightarrow> if faults w old = None then remove1 (old, eb) (conns w)
                                   else conns w))"
    unfolding w1 by (simp add: rebind_world_Some rebind_world_None)
  have rebind: "emit old eb w1 s1 = s1 \<and> emit new eb w1 s1 = enable_button s1"
    if h: "stop_signal s = Some old" "old \<noteq> new" "faults w old = None" "faults w new = None"
          "distinct (conns w)" for old
  proof -
    from h conns have c: "conns w1 = remove1 (new, eb) (remove1 (old, eb) (conns w)) @ [(new, eb)]"
      by simp
    from h(5) have "(old, eb) \<notin> set (remove1 (old, eb) (conns w))"
      by simp
    then have "(old, eb) \<notin> set (remove1 (new, eb) (remove1 (old, eb) (conns w)))"
      using notin_set_remove1 by fast
    with h(2) c have "(old, eb) \<notin> set (conns w1)" and "(new, eb) \<in> set (conns w1)"
      by simp_all
    then show ?thesis by (simp add: emit_eq)
  qed
  from Some e calls conns s1 rebind show ?thesis
    by (auto simp add: Let_def)
qed

text \<open>
  The theorem at the button bound to signal 1: rebound to the sound signal 2, rebound to
  signal 2 when that is faulty, and unbound.
\<close>

theorem set_enable_signal_rebind_witness:
  "stop_signal bound_button = Some 1 \<and> faults bound_world 1 = None \<and> faults bound_world 2 = None
   \<and> distinct (conns bound_world) \<and> faults faulty_world 2 \<noteq> None
   \<and> fst (set_enable_signal 0 (Some 2) (bound_world, bound_button)) = None
   \<and> snd (snd (set_enable_signal 0 (Some 2) (bound_world, bound_button)))
        = bound_button\<lparr>stop_signal := Some 2\<rparr>
   \<and> emit 1 0 (fst (snd (set_enable_signal 0 (Some 2) (bound_world, bound_button))))
                (snd (snd (set_enable_signal 0 (Some 2) (bound_world, bound_button))))
        = snd (snd (set_enable_signal 0 (Some 2) (bound_world, bound_button)))
   \<and> emit 2 0 (fst (snd (set_enable_signal 0 (Some 2) (bound_world, bound_button))))
                (snd (snd (set_enable_signal 0 (Some 2) (bound_world, bound_button))))
        = enable_button (snd (snd (set_enable_signal 0 (Some 2) (bound_world, bound_button))))
   \<and> snd (snd (set_enable_signal 0 (Some 2) (faulty_world, bound_button)))
        = bound_button\<lparr>stop_signal := None\<rparr>
   \<and> snd (snd (set_enable_signal 0 None (bound_world, bound_button)))
        = bound_button\<lparr>stop_signal := None\<rparr>"
proof -
  have h: "stop_signal bound_button = Some 1" "faults bound_world 1 = None"
    "faults bound_world 2 = None" "distinct (conns bound_world)" "(1::nat) \<noteq> 2"
    by (simp_all add: bound_button_def bound_world_def quiet_world_def)
  have f: "faults faulty_world 2 \<noteq> None"
    by (simp add: faulty_world_def)
  obtain e1 w1 s1 where r1: "set_enable_signal 0 (Some 2) (bound_world, bound_button) = (e1, w1, s1)"
    by (rule prod_cases3)
  from set_enable_signal_rebind [OF r1] h
  have a: "e1 = None" "s1 = bound_button\<lparr>stop_signal := Some 2\<rparr>"
    "emit 1 0 w1 s1 = s1" "emit 2 0 w1 s1 = enable_button s1"
    by blast+
  obtain e2 w2 s2 where r2: "set_enable_signal 0 (Some 2) (faulty_world, bound_button) = (e2, w2, s2)"
    by (rule prod_cases3)
  from set_enable_signal_rebind [OF r2] f
  have b: "s2 = bound_button\<lparr>stop_signal := None\<rparr>"
    by blast
  obtain e3 w3 s3 where r3: "set_enable_signal 0 None (bound_world, bound_button) = (e3, w3, s3)"
    by (rule prod_cases3)
  from set_enable_signal_rebind [OF r3]
  have c: "s3 = bound_button\<lparr>stop_signal := None\<rparr>"
    by blast
  from h f a b c show ?thesis
    by (simp add: r1 r2 r3)
qed

subsection \<open>Bulk teardown by reflection\<close>

declare safe_disconnect.simps [simp del]

lemma live_remove1: "live sg' (w\<lparr>conns := remove1 c (conns w)\<rparr>) \<le> live sg' w"
proof -
  have "filter (\<lambda>c. fst c = sg') (remove1 c (conns w))
          = remove1 c (filter (\<lambda>c. fst c = sg') (conns w))"
    by (rule filter_remove1)
  then show ?thesis
    by (simp add: live_def length_remove1)
qed

lemma sig_disconnect_None_empty:
  assumes "faults w sg = None" and "live sg w = 0"
  shows "sig_disconnect sg None w = (Some TypeError, w\<lparr>calls := calls w @ [Disconnect sg None]\<rparr>)"
proof -
  from assms(2) have "filter (\<lambda>c. fst c = sg) (conns w) = []"
    by (simp add: live_def)
  then have "find (\<lambda>c. fst c = sg) (conns w) = None"
    by (force simp add: find_None_iff filter_empty_conv)
  with assms(1) show ?thesis
    by (simp add: sig_disconnect_def Let_def)
qed

lemma sig_disconnect_None_step:
  assumes "faults w sg = None" and "live sg w = Suc n"
  shows "\<exists>c. sig_disconnect sg None w
               = (None, w\<lparr>calls := calls w @ [Disconnect sg None], conns := remove1 c (conns w)\<rparr>)
             \<and> live sg (w\<lparr>calls := calls w @ [Disconnect sg None], conns := remove1 c (conns w)\<rparr>) = n"
proof -
  from assms(2) have ne: "filter (\<lambda>c. fst c = sg) (conns w) \<noteq> []"
    by (auto simp add: live_def)
  then obtain c where c: "find (\<lambda>c. fst c = sg) (conns w) = Some c"
    by (cases "find (\<lambda>c. fst c = sg) (conns w)") (auto simp add: find_None_iff filter_empty_conv)
  then have "c \<in> set (conns w)" and "fst c = sg"
    by (auto simp add: find_Some_iff)
  then have mem: "c \<in> set (filter (\<lambda>c. fst c = sg) (conns w))" by simp
  have "filter (\<lambda>c. fst c = sg) (remove1 c (conns w))
          = remove1 c (filter (\<lambda>c. fst c = sg) (conns w))"
    by (rule filter_remove1)
  with mem assms(2)
  have "live sg (w\<lparr>calls := calls w @ [Disconnect sg None], conns := remove1 c (conns w)\<rparr>) = n"
    by (simp add: live_def length_remove1)
  moreover from assms(1) c
  have "sig_disconnect sg None w
          = (None, w\<lparr>calls := calls w @ [Disconnect sg None], conns := remove1 c (conns w)\<rparr>)"
    by (simp add: sig_disconnect_def Let_def)
  ultimately show ?thesis by blast
qed

lemma safe_disconnect_faulty:
  "faults w sg = Some e \<Longrightarrow>
     safe_disconnect sg w
       = (if e = TypeError then None else Some e, w\<lparr>calls := calls w @ [Disconnect sg None]\<rparr>)"
  by (simp add: safe_disconnect.simps [of sg w] sig_disconnect_faulty)

lemma safe_disconnect_sound:
  "faults w sg = None \<Longrightarrow> live sg w = n \<Longrightarrow>
     fst (safe_disconnect sg w) = None
     \<and> faults (snd (safe_disconnect sg w)) = faults w
     \<and> live sg (snd (safe_disconnect sg w)) = 0
     \<and> (\<forall>sg'. live sg' (snd (safe_disconnect sg w)) \<le> live sg' w)
     \<and> calls (snd (safe_disconnect sg w)) = calls w @ replicate (Suc n) (Disconnect sg None)"
proof (induction n arbitrary: w)
  case 0
  then show ?case
    by (simp add: safe_disconnect.simps [of sg w] sig_disconnect_None_empty live_def)
next
  case (Suc n)
  from sig_disconnect_None_step [OF Suc.prems] obtain c where
    r: "sig_disconnect sg None w
          = (None, w\<lparr>calls := calls w @ [Disconnect sg None], conns := remove1 c (conns w)\<rparr>)"
    and l: "live sg (w\<lparr>calls := calls w @ [Disconnect sg None], conns := remove1 c (conns w)\<rparr>) = n"
    by blast
  let ?w1 = "w\<lparr>calls := calls w @ [Disconnect sg None], conns := remove1 c (conns w)\<rparr>"
  from Suc.prems(1) have f: "faults ?w1 sg = None" by simp
  have eq: "safe_disconnect sg w = safe_disconnect sg ?w1"
    by (simp add: safe_disconnect.simps [of sg w] r)
  have le: "live sg' ?w1 \<le> live sg' w" for sg'
    using live_remove1 [where sg' = sg' and w = w and c = c] by (simp add: live_def)
  from Suc.IH [OF f l] le show ?case
    unfolding eq by (auto simp add: replicate_app_Cons_same intro: order_trans)
qed

lemma safe_disconnect_summary:
  "fst (safe_disconnect sg w)
     = (case faults w sg of None \<Rightarrow> None | Some e \<Rightarrow> if e = TypeError then None else Some e)
   \<and> faults (snd (safe_disconnect sg w)) = faults w
   \<and> (\<forall>sg'. live sg' (snd (safe_disconnect sg w)) \<le> live sg' w)
   \<and> (faults w sg = None \<longrightarrow> live sg (snd (safe_disconnect sg w)) = 0)
   \<and> set (calls (snd (safe_disconnect sg w))) = insert (Disconnect sg None) (set (calls w))"
proof (cases "faults w sg")
  case None
  from safe_disconnect_sound [OF None refl] None show ?thesis
    by auto
next
  case (Some e)
  then show ?thesis
    by (simp add: safe_disconnect_faulty live_def)
qed

lemma disconnect_all_signals_from_skip:
  "name = ''destroyed'' \<or> a = GetattrRaises \<or> a = NotSignal \<Longrightarrow>
     disconnect_all_signals_from ((name, a) # rest) w = disconnect_all_signals_from rest w"
  by auto

lemma disconnect_all_signals_from_signal:
  "name \<noteq> ''destroyed'' \<Longrightarrow>
     disconnect_all_signals_from ((name, SignalAttr sg) # rest) w
       = (if fst (safe_disconnect sg w) = None
          then disconnect_all_signals_from rest (snd (safe_disconnect sg w))
          else safe_disconnect sg w)"
  by (cases "safe_disconnect sg w"; cases "fst (safe_disconnect sg w)") simp_all

declare disconnect_all_signals_from.simps(2) [simp del]

lemma disconnect_all_signals_from_cases:
  obtains (skip) "disconnect_all_signals_from ((name, a) # rest) w
                    = disconnect_all_signals_from rest w"
                 "name = ''destroyed'' \<or> (\<forall>sg. a \<noteq> SignalAttr sg)"
  | (stop) sg e where "a = SignalAttr sg" "name \<noteq> ''destroyed''"
                 "faults w sg = Some e" "e \<noteq> TypeError"
                 "disconnect_all_signals_from ((name, a) # rest) w
                    = (Some e, w\<lparr>calls := calls w @ [Disconnect sg None]\<rparr>)"
  | (continue) sg where "a = SignalAttr sg" "name \<noteq> ''destroyed''"
                 "faults w sg = None \<or> faults w sg = Some TypeError"
                 "disconnect_all_signals_from ((name, a) # rest) w
                    = disconnect_all_signals_from rest (snd (safe_disconnect sg w))"
proof (cases "name = ''destroyed'' \<or> a = GetattrRaises \<or> a = NotSignal")
  case True
  then have "disconnect_all_signals_from ((name, a) # rest) w
               = disconnect_all_signals_from rest w"
    by (rule disconnect_all_signals_from_skip)
  moreover from True have "name = ''destroyed'' \<or> (\<forall>sg. a \<noteq> SignalAttr sg)" by auto
  ultimately show ?thesis by (rule skip)
next
  case False
  then obtain sg where a: "a = SignalAttr sg" and nd: "name \<noteq> ''destroyed''"
    by (cases a) auto
  note sd = safe_disconnect_summary [of sg w]
  show ?thesis
  proof (cases "faults w sg = None \<or> faults w sg = Some TypeError")
    case True
    with sd have "fst (safe_disconnect sg w) = None" by auto
    then have "disconnect_all_signals_from ((name, a) # rest) w
                 = disconnect_all_signals_from rest (snd (safe_disconnect sg w))"
      unfolding a by (simp add: disconnect_all_signals_from_signal [OF nd])
    with a nd True show ?thesis by (rule continue)
  next
    case False
    then obtain e where f: "faults w sg = Some e" and ne: "e \<noteq> TypeError"
      by (cases "faults w sg") auto
    then have "safe_disconnect sg w = (Some e, w\<lparr>calls := calls w @ [Disconnect sg None]\<rparr>)"
      by (simp add: safe_disconnect_faulty)
    then have "disconnect_all_signals_from ((name, a) # rest) w
                 = (Some e, w\<lparr>calls := calls w @ [Disconnect sg None]\<rparr>)"
      unfolding a by (simp add: disconnect_all_signals_from_signal [OF nd])
    with a nd f ne show ?thesis by (rule stop)
  qed
qed

lemma disconnect_all_signals_from_faults:
  "faults (snd (disconnect_all_signals_from owner w)) = faults w"
proof (induction owner arbitrary: w)
  case Nil
  show ?case by simp
next
  case (Cons na rest)
  obtain name a where na: "na = (name, a)" by (cases na)
  show ?case unfolding na
  proof (cases rule: disconnect_all_signals_from_cases [where name = name and a = a and rest = rest and w = w])
    case skip
    then show "faults (snd (disconnect_all_signals_from ((name, a) # rest) w)) = faults w"
      by (simp add: Cons.IH)
  next
    case (stop sg e)
    then show "faults (snd (disconnect_all_signals_from ((name, a) # rest) w)) = faults w"
      by simp
  next
    case (continue sg)
    then show "faults (snd (disconnect_all_signals_from ((name, a) # rest) w)) = faults w"
      using safe_disconnect_summary [of sg w] by (simp add: Cons.IH)
  qed
qed

lemma disconnect_all_signals_from_live:
  "live sg' (snd (disconnect_all_signals_from owner w)) \<le> live sg' w"
proof (induction owner arbitrary: w)
  case Nil
  show ?case by simp
next
  case (Cons na rest)
  obtain name a where na: "na = (name, a)" by (cases na)
  show ?case unfolding na
  proof (cases rule: disconnect_all_signals_from_cases [where name = name and a = a and rest = rest and w = w])
    case skip
    then show "live sg' (snd (disconnect_all_signals_from ((name, a) # rest) w)) \<le> live sg' w"
      by (simp add: Cons.IH)
  next
    case (stop sg e)
    then show "live sg' (snd (disconnect_all_signals_from ((name, a) # rest) w)) \<le> live sg' w"
      by (simp add: live_def)
  next
    case (continue sg)
    have "live sg' (snd (disconnect_all_signals_from rest (snd (safe_disconnect sg w))))
            \<le> live sg' (snd (safe_disconnect sg w))"
      by (rule Cons.IH)
    also have "\<dots> \<le> live sg' w"
      using safe_disconnect_summary [of sg w] by blast
    finally show "live sg' (snd (disconnect_all_signals_from ((name, a) # rest) w)) \<le> live sg' w"
      using continue by simp
  qed
qed

lemma disconnect_all_signals_from_exn:
  "(fst (disconnect_all_signals_from owner w) = None)
      = (\<forall>na\<in>set owner. fst na \<noteq> ''destroyed'' \<longrightarrow>
           (\<forall>sg. snd na = SignalAttr sg \<longrightarrow> faults w sg = None \<or> faults w sg = Some TypeError))"
proof (induction owner arbitrary: w)
  case Nil
  show ?case by simp
next
  case (Cons na rest)
  obtain name a where na: "na = (name, a)" by (cases na)
  show ?case unfolding na
  proof (cases rule: disconnect_all_signals_from_cases [where name = name and a = a and rest = rest and w = w])
    case skip
    then show "(fst (disconnect_all_signals_from ((name, a) # rest) w) = None)
      = (\<forall>na\<in>set ((name, a) # rest). fst na \<noteq> ''destroyed'' \<longrightarrow>
           (\<forall>sg. snd na = SignalAttr sg \<longrightarrow> faults w sg = None \<or> faults w sg = Some TypeError))"
      by (auto simp add: Cons.IH)
  next
    case (stop sg e)
    then show "(fst (disconnect_all_signals_from ((name, a) # rest) w) = None)
      = (\<forall>na\<in>set ((name, a) # rest). fst na \<noteq> ''destroyed'' \<longrightarrow>
           (\<forall>sg. snd na = SignalAttr sg \<longrightarrow> faults w sg = None \<or> faults w sg = Some TypeError))"
      by simp
  next
    case (continue sg)
    have "faults (snd (safe_disconnect sg w)) = faults w"
      using safe_disconnect_summary [of sg w] by blast
    with continue show "(fst (disconnect_all_signals_from ((name, a) # rest) w) = None)
      = (\<forall>na\<in>set ((name, a) # rest). fst na \<noteq> ''destroyed'' \<longrightarrow>
           (\<forall>sg. snd na = SignalAttr sg \<longrightarrow> faults w sg = None \<or> faults w sg = Some TypeError))"
      by (simp add: Cons.IH)
  qed
qed

lemma disconnect_all_signals_from_sentinel:
  "fst (disconnect_all_signals_from owner w) \<noteq> Some TypeError"
proof (induction owner arbitrary: w)
  case Nil
  show ?case by simp
next
  case (Cons na rest)
  obtain name a where na: "na = (name, a)" by (cases na)
  show ?case unfolding na
    by (cases rule: disconnect_all_signals_from_cases [where name = name and a = a and rest = rest and w = w]) (simp_all add: Cons.IH)
qed

lemma disconnect_all_signals_from_drained:
  "fst (disconnect_all_signals_from owner w) = None \<Longrightarrow>
     (name0, SignalAttr sg0) \<in> set owner \<Longrightarrow> name0 \<noteq> ''destroyed'' \<Longrightarrow> faults w sg0 = None \<Longrightarrow>
     live sg0 (snd (disconnect_all_signals_from owner w)) = 0"
proof (induction owner arbitrary: w)
  case Nil
  then show ?case by simp
next
  case (Cons na rest)
  obtain name a where na: "na = (name, a)" by (cases na)
  from Cons.prems(1,2)
  have ok: "fst (disconnect_all_signals_from ((name, a) # rest) w) = None"
    and mem: "(name0, SignalAttr sg0) \<in> set ((name, a) # rest)"
    unfolding na by simp_all
  show ?case unfolding na
  proof (cases rule: disconnect_all_signals_from_cases [where name = name and a = a and rest = rest and w = w])
    case skip
    with mem Cons.prems(3) have "(name0, SignalAttr sg0) \<in> set rest" by auto
    with skip ok Cons.prems(3,4)
    show "live sg0 (snd (disconnect_all_signals_from ((name, a) # rest) w)) = 0"
      by (simp add: Cons.IH)
  next
    case (stop sg e)
    with ok show "live sg0 (snd (disconnect_all_signals_from ((name, a) # rest) w)) = 0"
      by simp
  next
    case (continue sg)
    note sd = safe_disconnect_summary [of sg w]
    let ?w1 = "snd (safe_disconnect sg w)"
    from sd Cons.prems(4) have f1: "faults ?w1 sg0 = None" by simp
    from ok continue have ok1: "fst (disconnect_all_signals_from rest ?w1) = None" by simp
    have "live sg0 (snd (disconnect_all_signals_from rest ?w1)) = 0"
    proof (cases "(name0, SignalAttr sg0) \<in> set rest")
      case True
      with ok1 Cons.prems(3) f1 show ?thesis by (simp add: Cons.IH)
    next
      case False
      with mem continue have "sg0 = sg" by simp
      with sd Cons.prems(4) have "live sg0 ?w1 = 0" by simp
      with disconnect_all_signals_from_live [of sg0 rest ?w1] show ?thesis by simp
    qed
    with continue show "live sg0 (snd (disconnect_all_signals_from ((name, a) # rest) w)) = 0"
      by simp
  qed
qed

lemma disconnect_all_signals_from_calls:
  "c \<in> set (calls (snd (disconnect_all_signals_from owner w))) \<Longrightarrow>
     c \<in> set (calls w)
     \<or> (\<exists>name0 sg0. c = Disconnect sg0 None \<and> (name0, SignalAttr sg0) \<in> set owner
                     \<and> name0 \<noteq> ''destroyed'')"
proof (induction owner arbitrary: w)
  case Nil
  then show ?case by simp
next
  case (Cons na rest)
  obtain name a where na: "na = (name, a)" by (cases na)
  from Cons.prems
  have cm: "c \<in> set (calls (snd (disconnect_all_signals_from ((name, a) # rest) w)))"
    unfolding na .
  show ?case unfolding na
  proof (cases rule: disconnect_all_signals_from_cases [where name = name and a = a and rest = rest and w = w])
    case skip
    with cm have "c \<in> set (calls (snd (disconnect_all_signals_from rest w)))" by simp
    from Cons.IH [OF this]
    show "c \<in> set (calls w)
     \<or> (\<exists>name0 sg0. c = Disconnect sg0 None \<and> (name0, SignalAttr sg0) \<in> set ((name, a) # rest)
                     \<and> name0 \<noteq> ''destroyed'')"
      by auto
  next
    case (stop sg e)
    with cm have "c \<in> set (calls w) \<or> c = Disconnect sg None" by auto
    with stop
    show "c \<in> set (calls w)
     \<or> (\<exists>name0 sg0. c = Disconnect sg0 None \<and> (name0, SignalAttr sg0) \<in> set ((name, a) # rest)
                     \<and> name0 \<noteq> ''destroyed'')"
      by auto
  next
    case (continue sg)
    let ?w1 = "snd (safe_disconnect sg w)"
    from cm continue have "c \<in> set (calls (snd (disconnect_all_signals_from rest ?w1)))" by simp
    from Cons.IH [OF this]
    have "c \<in> set (calls ?w1)
     \<or> (\<exists>name0 sg0. c = Disconnect sg0 None \<and> (name0, SignalAttr sg0) \<in> set rest
                     \<and> name0 \<noteq> ''destroyed'')" .
    moreover have "set (calls ?w1) = insert (Disconnect sg None) (set (calls w))"
      using safe_disconnect_summary [of sg w] by blast
    ultimately
    show "c \<in> set (calls w)
     \<or> (\<exists>name0 sg0. c = Disconnect sg0 None \<and> (name0, SignalAttr sg0) \<in> set ((name, a) # rest)
                     \<and> name0 \<noteq> ''destroyed'')"
      using continue by auto
  qed
qed

text \<open>
  Claim C5, as amended. \<open>disconnect_all_signals_from\<close> visits every attribute of the
  owner that is a signal, except the one named \<open>destroyed\<close>, and calls \<open>disconnect()\<close>
  on it until that raises \<open>TypeError\<close>, which ends the loop for this signal and is never
  propagated. A disconnect that fails with another exception class is not recovered: the
  exception leaves the call. So the call returns without exception exactly when no visited
  signal fails with a class other than \<open>TypeError\<close>; then every sound visited signal
  has no connection left. The only toolkit calls made are \<open>disconnect()\<close> on visited
  signals.
\<close>

theorem disconnect_all_signals_from_teardown:
  "(fst (disconnect_all_signals_from owner w) = None)
      = (\<forall>na\<in>set owner. fst na \<noteq> ''destroyed'' \<longrightarrow>
           (\<forall>sg. snd na = SignalAttr sg \<longrightarrow> faults w sg = None \<or> faults w sg = Some TypeError))
   \<and> fst (disconnect_all_signals_from owner w) \<noteq> Some TypeError
   \<and> (fst (disconnect_all_signals_from owner w) = None \<longrightarrow>
        (\<forall>name sg. (name, SignalAttr sg) \<in> set owner \<and> name \<noteq> ''destroyed'' \<and> faults w sg = None
           \<longrightarrow> live sg (snd (disconnect_all_signals_from owner w)) = 0))
   \<and> (\<forall>c\<in>set (calls (snd (disconnect_all_signals_from owner w))).
        c \<in> set (calls w)
        \<or> (\<exists>name sg. c = Disconnect sg None \<and> (name, SignalAttr sg) \<in> set owner
                       \<and> name \<noteq> ''destroyed''))"
  using disconnect_all_signals_from_exn [of owner w]
        disconnect_all_signals_from_sentinel [of owner w]
        disconnect_all_signals_from_drained [of owner w]
        disconnect_all_signals_from_calls [of _ owner w]
  by blast

text \<open>
  The theorem at an owner with a signal \<open>clicked\<close> (signal 1, connected twice), its
  \<open>destroyed\<close> signal (signal 2, connected once) and an attribute that is no signal, all
  signals sound: the call returns, \<open>clicked\<close> has no connection left and only signal 1
  was called.
\<close>

theorem disconnect_all_signals_from_teardown_witness:
  "faults (quiet_world\<lparr>conns := [(1, 10), (2, 20), (1, 11)]\<rparr>) 1 = None
   \<and> fst (disconnect_all_signals_from
             [(''clicked'', SignalAttr 1), (''destroyed'', SignalAttr 2), (''text'', NotSignal)]
             (quiet_world\<lparr>conns := [(1, 10), (2, 20), (1, 11)]\<rparr>)) = None
   \<and> live 1 (snd (disconnect_all_signals_from
             [(''clicked'', SignalAttr 1), (''destroyed'', SignalAttr 2), (''text'', NotSignal)]
             (quiet_world\<lparr>conns := [(1, 10), (2, 20), (1, 11)]\<rparr>))) = 0
   \<and> Disconnect 2 None \<notin> set (calls (snd (disconnect_all_signals_from
             [(''clicked'', SignalAttr 1), (''destroyed'', SignalAttr 2), (''text'', NotSignal)]
             (quiet_world\<lparr>conns := [(1, 10), (2, 20), (1, 11)]\<rparr>))))"
proof -
  let ?owner = "[(''clicked'', SignalAttr 1), (''destroyed'', SignalAttr 2), (''text'', NotSignal)]"
  let ?w = "quiet_world\<lparr>conns := [(1, 10), (2, 20), (1, 11)]\<rparr>"
  note t = disconnect_all_signals_from_teardown [of ?owner ?w]
  have h: "\<forall>na\<in>set ?owner. fst na \<noteq> ''destroyed'' \<longrightarrow>
         (\<forall>sg. snd na = SignalAttr sg \<longrightarrow> faults ?w sg = None \<or> faults ?w sg = Some TypeError)"
    by (simp add: quiet_world_def)
  with t have ok: "fst (disconnect_all_signals_from ?owner ?w) = None"
    by blast
  have m: "(''clicked'', SignalAttr 1) \<in> set ?owner" "''clicked'' \<noteq> ''destroyed''"
    "faults ?w 1 = None"
    by (simp_all add: quiet_world_def)
  with t ok have l: "live 1 (snd (disconnect_all_signals_from ?owner ?w)) = 0"
    by blast
  have n: "Disconnect 2 None \<notin> set (calls (snd (disconnect_all_signals_from ?owner ?w)))"
  proof
    assume "Disconnect 2 None \<in> set (calls (snd (disconnect_all_signals_from ?owner ?w)))"
    with t have "Disconnect 2 None \<in> set (calls ?w)
        \<or> (\<exists>name sg. Disconnect 2 None = Disconnect sg None \<and> (name, SignalAttr sg) \<in> set ?owner
                       \<and> name \<noteq> ''destroyed'')"
      by blast
    then show False by (simp add: quiet_world_def)
  qed
  from m ok l n show ?thesis by blast
qed

text \<open>
  The claim as it was stated lets no failure of a disconnect leave the call. An owner
  whose signal \<open>clicked\<close> fails every call with \<open>RuntimeError\<close> (its wrapped object is
  gone): \<open>_safe_disconnect\<close> catches \<open>TypeError\<close> only, and the \<open>RuntimeError\<close>
  leaves \<open>disconnect_all_signals_from\<close>.
\<close>

theorem disconnect_all_signals_from_counterexample:
  "fst (disconnect_all_signals_from [(''clicked'', SignalAttr 1)]
          (quiet_world\<lparr>faults := (\<lambda>sg. Some RuntimeError)\<rparr>)) = Some RuntimeError"
  by (simp add: disconnect_all_signals_from_signal safe_disconnect_faulty)

end
